theory Spec2Isabelle
  imports
    Main
    "HOL-Library.Char_ord"
    "HOL-Library.List_Lexorder"
    "HOL-Library.Product_Lexorder"
begin

text \<open>
  A model of \<^verbatim>\<open>scripts/build_traceability_audit.py\<close>: the item loader, the annotation
  scanner, the link resolver and the counts of the summary.  Files and directories are
  inputs: a directory is given by the list of files that the loops visit, an item file by
  the value parsed from it, a scanned file by its text.  Every \<open>raise\<close> of the script is a
  result \<open>Inl\<close>.  The report template, the command line and \<open>coverage_pct\<close> (a binary
  floating-point number) are not modelled.
\<close>

section \<open>Python strings\<close>

text \<open>
  A Python \<open>str\<close> is modelled as a \<open>string\<close> whose characters are the code points
  below 256.  The order on strings (\<open>List_Lexorder\<close> over \<open>Char_ord\<close>) is the
  code-point-wise lexicographic order that Python's \<open>sorted\<close> uses.
\<close>

definition is_space :: "char \<Rightarrow> bool" where
  \<comment> \<open>\<open>str.isspace\<close> and the regular expression class \<open>\s\<close> on code points below 256\<close>
  "is_space c \<longleftrightarrow> c \<in> set [CHR 0x09, CHR 0x0A, CHR 0x0B, CHR 0x0C, CHR 0x0D,
     CHR 0x1C, CHR 0x1D, CHR 0x1E, CHR 0x1F, CHR 0x20, CHR 0x85, CHR 0xA0]"

definition lstrip :: "string \<Rightarrow> string" where
  "lstrip s = dropWhile is_space s"

definition rstrip :: "string \<Rightarrow> string" where
  "rstrip s = rev (dropWhile is_space (rev s))"

definition strip :: "string \<Rightarrow> string" where
  "strip s = rstrip (lstrip s)"

definition is_linebreak :: "char \<Rightarrow> bool" where
  \<comment> \<open>the line boundaries of \<open>str.splitlines\<close> on code points below 256\<close>
  "is_linebreak c \<longleftrightarrow> c \<in> set [CHR 0x0A, CHR 0x0B, CHR 0x0C, CHR 0x0D,
     CHR 0x1C, CHR 0x1D, CHR 0x1E, CHR 0x85]"

fun splitlines_from :: "string \<Rightarrow> string \<Rightarrow> string list" where
  \<comment> \<open>first argument: the characters of the line being read, latest first\<close>
  "splitlines_from cur [] = (if cur = [] then [] else [rev cur])"
| "splitlines_from cur [c] =
     (if is_linebreak c then [rev cur] else [rev (c # cur)])"
| "splitlines_from cur (c # d # s) =
     (if c = CHR 0x0D \<and> d = CHR 0x0A then rev cur # splitlines_from [] s
      else if is_linebreak c then rev cur # splitlines_from [] (d # s)
      else splitlines_from (c # cur) (d # s))"

definition splitlines :: "string \<Rightarrow> string list" where
  "splitlines s = splitlines_from [] s"

fun split_from :: "char \<Rightarrow> string \<Rightarrow> string \<Rightarrow> string list" where
  "split_from sep cur [] = [rev cur]"
| "split_from sep cur (c # s) =
     (if c = sep then rev cur # split_from sep [] s else split_from sep (c # cur) s)"

definition split_on :: "char \<Rightarrow> string \<Rightarrow> string list" where
  \<comment> \<open>\<open>s.split(sep)\<close> for a one-character separator\<close>
  "split_on sep s = split_from sep [] s"

definition replace_char :: "char \<Rightarrow> char \<Rightarrow> string \<Rightarrow> string" where
  \<comment> \<open>\<open>s.replace(a, b)\<close> for one-character strings\<close>
  "replace_char a b s = map (\<lambda>c. if c = a then b else c) s"

fun join :: "string \<Rightarrow> string list \<Rightarrow> string" where
  \<comment> \<open>\<open>sep.join(parts)\<close>\<close>
  "join sep [] = []"
| "join sep [p] = p"
| "join sep (p # q # ps) = p @ sep @ join sep (q # ps)"

definition startswith :: "string \<Rightarrow> string \<Rightarrow> bool" where
  "startswith s p \<longleftrightarrow> take (length p) s = p"

definition digit_char :: "nat \<Rightarrow> char" where
  "digit_char d = char_of (48 + d)"

fun str_nat :: "nat \<Rightarrow> string" where
  \<comment> \<open>\<open>str(n)\<close> for a non-negative integer\<close>
  "str_nat n = (if n < 10 then [digit_char n] else str_nat (n div 10) @ [digit_char (n mod 10)])"

declare str_nat.simps [simp del]

definition str_int :: "int \<Rightarrow> string" where
  "str_int i = (if i < 0 then CHR ''-'' # str_nat (nat (- i)) else str_nat (nat i))"

definition quote :: string where
  "quote = [CHR 0x27]"

section \<open>Errors\<close>

datatype error =
    FileNotFoundError string
  | ValueError string
  | AttributeError
  | KeyError string

section \<open>Annotation scanner\<close>

subsection \<open>The directive pattern\<close>

text \<open>
  \<open>DIRECTIVE_RE\<close> is
  \<^verbatim>\<open>^\s*(?:#|//|--|;|/\*+|\*+)?\s*(HODOR-[A-Z-]+)\s*:\s*(.*)$\<close>,
  applied with \<open>match\<close>.  The literal \<open>HODOR-\<close> starts with a character that is
  neither white space nor the start of a comment marker, the name ends at the first
  character outside \<open>[A-Z-]\<close>, and the colon is not white space, so every greedy
  repetition before the colon has to take its longest match and at most one
  alternative of the comment marker can lead to a match.  After the colon the
  white space is taken greedily; \<open>.\<close> does not match a newline and \<open>$\<close> matches at
  the end of the string or before a newline that ends it.
\<close>

fun comment_marker :: "string \<Rightarrow> string option" where
  \<comment> \<open>the rest of the string after \<open>#|//|--|;|/\*+|\*+\<close>, if it starts with one\<close>
  "comment_marker s =
     (if startswith s ''#'' then Some (drop 1 s)
      else if startswith s ''//'' then Some (drop 2 s)
      else if startswith s ''--'' then Some (drop 2 s)
      else if startswith s '';'' then Some (drop 1 s)
      else if startswith s ''/*'' then Some (dropWhile (\<lambda>c. c = CHR ''*'') (drop 2 s))
      else if startswith s ''*'' then Some (dropWhile (\<lambda>c. c = CHR ''*'') (drop 1 s))
      else None)"

definition is_name_char :: "char \<Rightarrow> bool" where
  \<comment> \<open>the class \<open>[A-Z-]\<close>\<close>
  "is_name_char c \<longleftrightarrow> (CHR ''A'' \<le> c \<and> c \<le> CHR ''Z'') \<or> c = CHR ''-''"

definition value_group :: "string \<Rightarrow> string option" where
  \<comment> \<open>\<open>\s*(.*)$\<close> on the text after the colon: the second group\<close>
  "value_group s =
     (let r = dropWhile is_space s in
      if CHR 0x0A \<notin> set r then Some r
      else if last r = CHR 0x0A \<and> CHR 0x0A \<notin> set (butlast r) then Some (butlast r)
      else None)"

definition DIRECTIVE_RE_match :: "string \<Rightarrow> (string \<times> string) option" where
  \<comment> \<open>\<open>DIRECTIVE_RE.match(line)\<close>: groups 1 and 2, or \<open>None\<close>\<close>
  "DIRECTIVE_RE_match line =
     (let s1 = dropWhile is_space line;
          s2 = (case comment_marker s1 of Some r \<Rightarrow> dropWhile is_space r | None \<Rightarrow> s1)
      in if \<not> startswith s2 ''HODOR-'' then None
         else
           let s3 = drop 6 s2;
               name = takeWhile is_name_char s3;
               s4 = dropWhile is_space (dropWhile is_name_char s3)
           in if name = [] then None
              else (case s4 of
                      [] \<Rightarrow> None
                    | c # s5 \<Rightarrow>
                        if c \<noteq> CHR '':'' then None
                        else (case value_group s5 of
                                None \<Rightarrow> None
                              | Some v \<Rightarrow> Some (''HODOR-'' @ name, v))))"

subsection \<open>Directive blocks\<close>

definition split_list :: "string \<Rightarrow> string list" where
  "split_list v =
     map strip (filter (\<lambda>part. strip part \<noteq> [])
       (split_on CHR '','' (replace_char CHR '';'' CHR '','' v)))"

record block =
  block_id :: "string option"
  block_reqs :: "string list"
  block_refs :: "string list"
  block_text :: "string list"
  start_line :: nat

definition new_block :: "nat \<Rightarrow> block" where
  "new_block line_no =
     \<lparr>block_id = None, block_reqs = [], block_refs = [], block_text = [],
      start_line = line_no\<rparr>"

definition apply_directive ::
  "string \<Rightarrow> nat \<Rightarrow> string \<Rightarrow> string \<Rightarrow> block \<Rightarrow> error + block" where
  \<comment> \<open>the \<open>if\<close>/\<open>elif\<close> chain of \<open>parse_hodor_blocks\<close> on the open block\<close>
  "apply_directive path_label line_no directive v current =
     (if directive = ''HODOR-ID'' then Inr (current\<lparr>block_id := Some v\<rparr>)
      else if directive = ''HODOR-REQS''
        then Inr (current\<lparr>block_reqs := block_reqs current @ split_list v\<rparr>)
      else if directive = ''HODOR-REF'' \<or> directive = ''HODOR-REFS''
        then Inr (current\<lparr>block_refs := block_refs current @ split_list v\<rparr>)
      else if directive = ''HODOR-TEXT''
        then Inr (if v \<noteq> [] then current\<lparr>block_text := block_text current @ [v]\<rparr>
                  else current)
      else Inl (ValueError (''Unknown HODOR directive '' @ quote @ directive @ quote
                  @ '' in '' @ path_label @ '':'' @ str_nat line_no)))"

fun parse_loop ::
  "string \<Rightarrow> nat \<Rightarrow> string list \<Rightarrow> block list \<Rightarrow> block option \<Rightarrow> error + block list" where
  \<comment> \<open>the \<open>for\<close> loop over \<open>enumerate(lines, start=1)\<close> from line \<open>line_no\<close> on, with the
      variables \<open>blocks\<close> and \<open>current\<close>, and the statements after the loop\<close>
  "parse_loop path_label line_no [] blocks current =
     (case current of None \<Rightarrow> Inr blocks | Some b \<Rightarrow> Inr (blocks @ [b]))"
| "parse_loop path_label line_no (line # lines) blocks current =
     (case DIRECTIVE_RE_match line of
        Some (g1, g2) \<Rightarrow>
          (let directive = strip g1;
               v = strip g2;
               cur = (case current of None \<Rightarrow> new_block line_no | Some b \<Rightarrow> b)
           in case apply_directive path_label line_no directive v cur of
                Inl e \<Rightarrow> Inl e
              | Inr cur' \<Rightarrow> parse_loop path_label (Suc line_no) lines blocks (Some cur'))
      | None \<Rightarrow>
          (case current of
             Some b \<Rightarrow> parse_loop path_label (Suc line_no) lines (blocks @ [b]) None
           | None \<Rightarrow> parse_loop path_label (Suc line_no) lines blocks None))"

definition parse_hodor_blocks :: "string list \<Rightarrow> string \<Rightarrow> error + block list" where
  "parse_hodor_blocks lines path_label = parse_loop path_label 1 lines [] None"

subsection \<open>Scanning a tree\<close>

text \<open>
  The file system is an input of the model.  A directory argument is given as what the
  loops see: the directory is missing (with the text of its resolved path), or it
  holds a list of files in the order the loop visits them.
\<close>

datatype 'f directory = Missing string | Directory "'f list"

record scan_file =
  file_label :: string            \<comment> \<open>\<open>str(file_path)\<close>\<close>
  rel_label :: string             \<comment> \<open>\<open>str(rel_path)\<close>\<close>
  content :: "string option"      \<comment> \<open>\<open>None\<close>: \<open>read_text\<close> raises \<open>UnicodeDecodeError\<close>\<close>

record item =
  item_id :: string
  item_text :: string
  item_links :: "string list"
  item_path :: string
  item_refs :: "string list option"   \<comment> \<open>\<open>None\<close>: the dictionary has no key \<open>refs\<close>\<close>

definition synthesized_id :: "string \<Rightarrow> nat \<Rightarrow> string" where
  \<comment> \<open>\<open>f"{rel_label}#L{block['start_line']}"\<close>\<close>
  "synthesized_id label line_no = label @ ''#L'' @ str_nat line_no"

definition effective_id :: "string \<Rightarrow> block \<Rightarrow> string" where
  \<comment> \<open>\<open>block["id"] or f"{rel_label}#L{block['start_line']}"\<close>\<close>
  "effective_id label b =
     (case block_id b of
        None \<Rightarrow> synthesized_id label (start_line b)
      | Some v \<Rightarrow> if v \<noteq> [] then v else synthesized_id label (start_line b))"

definition marker_text :: "string \<Rightarrow> block \<Rightarrow> string" where
  \<comment> \<open>the joined \<open>HODOR-TEXT\<close> lines, or the placeholder\<close>
  "marker_text label b =
     (let t = strip (join [CHR 0x0A] (block_text b))
      in if t = [] then ''Traceability marker in '' @ label else t)"

fun annotate_blocks ::
  "string \<Rightarrow> block list \<Rightarrow> item list \<times> string set \<Rightarrow> error + (item list \<times> string set)" where
  \<comment> \<open>the loop \<open>for block in blocks\<close> with the variables \<open>items\<close> and \<open>seen\<close>\<close>
  "annotate_blocks label [] st = Inr st"
| "annotate_blocks label (b # bs) (items, seen) =
     (let reqs = block_reqs b in
      if reqs = []
        then Inl (ValueError (''Missing HODOR-REQS in '' @ label @ '':'' @ str_nat (start_line b)))
      else
        let test_id = effective_id label b in
        if test_id \<in> seen
          then Inl (ValueError (''Duplicate test id '' @ quote @ test_id @ quote
                      @ '' in '' @ label))
        else
          annotate_blocks label bs
            (items @ [\<lparr>item_id = test_id, item_text = marker_text label b,
                        item_links = reqs, item_path = label,
                        item_refs = Some (block_refs b)\<rparr>],
             insert test_id seen))"

fun annotate_files ::
  "scan_file list \<Rightarrow> item list \<times> string set \<Rightarrow> error + (item list \<times> string set)" where
  \<comment> \<open>the loop \<open>for file_path in iter_scan_files(dir_path)\<close>\<close>
  "annotate_files [] st = Inr st"
| "annotate_files (f # fs) st =
     (case content f of
        None \<Rightarrow> annotate_files fs st
      | Some c \<Rightarrow>
          (case parse_hodor_blocks (splitlines c) (file_label f) of
             Inl e \<Rightarrow> Inl e
           | Inr blocks \<Rightarrow>
               if blocks = [] then annotate_files fs st
               else (case annotate_blocks (rel_label f) blocks st of
                       Inl e \<Rightarrow> Inl e
                     | Inr st' \<Rightarrow> annotate_files fs st')))"

fun annotate_dirs ::
  "scan_file directory list \<Rightarrow> item list \<times> string set \<Rightarrow> error + (item list \<times> string set)" where
  \<comment> \<open>the loop \<open>for rel_dir in rel_dirs\<close>\<close>
  "annotate_dirs [] st = Inr st"
| "annotate_dirs (Missing p # ds) st =
     Inl (FileNotFoundError (''Test scan directory not found: '' @ p))"
| "annotate_dirs (Directory fs # ds) st =
     (case annotate_files fs st of
        Inl e \<Rightarrow> Inl e
      | Inr st' \<Rightarrow> annotate_dirs ds st')"

definition load_test_annotations :: "scan_file directory list \<Rightarrow> error + item list" where
  "load_test_annotations rel_dirs =
     (case annotate_dirs rel_dirs ([], {}) of
        Inl e \<Rightarrow> Inl e
      | Inr (items, seen) \<Rightarrow> Inr items)"

section \<open>Item loader\<close>

text \<open>
  The value that \<open>yaml.safe_load\<close> returns for a file, without floating-point numbers
  and dates.  A mapping is the list of its items, each key once.
\<close>

datatype yaml =
    YNull
  | YBool bool
  | YInt int
  | YStr string
  | YList "yaml list"
  | YMap "(yaml \<times> yaml) list"

fun truthy :: "yaml \<Rightarrow> bool" where
  "truthy YNull = False"
| "truthy (YBool b) = b"
| "truthy (YInt i) = (i \<noteq> 0)"
| "truthy (YStr s) = (s \<noteq> [])"
| "truthy (YList vs) = (vs \<noteq> [])"
| "truthy (YMap kvs) = (kvs \<noteq> [])"

definition py_or :: "yaml \<Rightarrow> yaml \<Rightarrow> yaml" where
  \<comment> \<open>\<open>a or b\<close>\<close>
  "py_or a b = (if truthy a then a else b)"

definition dict_get :: "(yaml \<times> yaml) list \<Rightarrow> string \<Rightarrow> yaml" where
  \<comment> \<open>\<open>data.get(key)\<close>\<close>
  "dict_get kvs k = (case map_of kvs (YStr k) of None \<Rightarrow> YNull | Some v \<Rightarrow> v)"

fun py_str :: "(yaml \<Rightarrow> string) \<Rightarrow> yaml \<Rightarrow> string" where
  \<comment> \<open>\<open>str(v)\<close>; the text of a list or of a mapping is given by the first argument\<close>
  "py_str repr YNull = ''None''"
| "py_str repr (YBool b) = (if b then ''True'' else ''False'')"
| "py_str repr (YInt i) = str_int i"
| "py_str repr (YStr s) = s"
| "py_str repr (YList vs) = repr (YList vs)"
| "py_str repr (YMap kvs) = repr (YMap kvs)"

record item_file =
  file_name :: string     \<comment> \<open>\<open>item_file.name\<close>\<close>
  file_stem :: string     \<comment> \<open>\<open>item_file.stem\<close>\<close>
  file_str :: string      \<comment> \<open>\<open>str(item_file)\<close>\<close>
  file_rel :: string      \<comment> \<open>\<open>str(rel_path)\<close>\<close>
  file_data :: yaml       \<comment> \<open>\<open>yaml.safe_load(item_file.read_text(encoding="utf-8"))\<close>\<close>

definition SKIP_NAMES :: "string set" where
  "SKIP_NAMES = {''.doorstop.yml'', ''doorstop.yml'', ''.doorstop.skip'', ''.doorstop.skip-all''}"

definition item_uid :: "(yaml \<Rightarrow> string) \<Rightarrow> item_file \<Rightarrow> (yaml \<times> yaml) list \<Rightarrow> string" where
  \<comment> \<open>\<open>str(data.get("uid") or item_file.stem)\<close>\<close>
  "item_uid repr f kvs = py_str repr (py_or (dict_get kvs ''uid'') (YStr (file_stem f)))"

definition item_links_of :: "(yaml \<Rightarrow> string) \<Rightarrow> (yaml \<times> yaml) list \<Rightarrow> string list" where
  "item_links_of repr kvs =
     (case py_or (dict_get kvs ''links'') (YList []) of
        YStr s \<Rightarrow> [s]
      | YList vs \<Rightarrow> map (py_str repr) vs
      | _ \<Rightarrow> [])"

definition item_text_of :: "(yaml \<Rightarrow> string) \<Rightarrow> (yaml \<times> yaml) list \<Rightarrow> string" where
  "item_text_of repr kvs =
     py_str repr (py_or (py_or (dict_get kvs ''text'') (dict_get kvs ''title'')) (YStr []))"

fun load_files ::
  "(yaml \<Rightarrow> string) \<Rightarrow> item_file list \<Rightarrow> item list \<times> string set
     \<Rightarrow> error + (item list \<times> string set)" where
  \<comment> \<open>the loops \<open>for ext\<close> and \<open>for item_file\<close> with the variables \<open>items\<close> and \<open>seen\<close>\<close>
  "load_files repr [] st = Inr st"
| "load_files repr (f # fs) (items, seen) =
     (if file_name f \<in> SKIP_NAMES then load_files repr fs (items, seen)
      else
        (case py_or (file_data f) (YMap []) of
           YMap kvs \<Rightarrow>
             (let uid = item_uid repr f kvs in
              if uid \<in> seen
                then Inl (ValueError (''Duplicate item id '' @ quote @ uid @ quote
                            @ '' in '' @ file_str f))
              else load_files repr fs
                     (items @ [\<lparr>item_id = uid, item_text = rstrip (item_text_of repr kvs),
                                 item_links = item_links_of repr kvs,
                                 item_path = file_rel f, item_refs = None\<rparr>],
                      insert uid seen))
         | _ \<Rightarrow> Inl AttributeError))"

fun load_dirs ::
  "(yaml \<Rightarrow> string) \<Rightarrow> string \<Rightarrow> item_file directory list \<Rightarrow> item list \<times> string set
     \<Rightarrow> error + (item list \<times> string set)" where
  \<comment> \<open>the loop \<open>for rel_dir in rel_dirs\<close>\<close>
  "load_dirs repr label [] st = Inr st"
| "load_dirs repr label (Missing p # ds) st =
     Inl (FileNotFoundError (label @ '' directory not found: '' @ p))"
| "load_dirs repr label (Directory fs # ds) st =
     (case load_files repr fs st of
        Inl e \<Rightarrow> Inl e
      | Inr st' \<Rightarrow> load_dirs repr label ds st')"

definition load_items ::
  "(yaml \<Rightarrow> string) \<Rightarrow> item_file directory list \<Rightarrow> string \<Rightarrow> error + item list" where
  "load_items repr rel_dirs label =
     (case load_dirs repr label rel_dirs ([], {}) of
        Inl e \<Rightarrow> Inl e
      | Inr (items, seen) \<Rightarrow> Inr items)"

section \<open>Link resolver and coverage aggregator\<close>

fun extract_loop :: "bool \<Rightarrow> string list \<Rightarrow> string list \<Rightarrow> string list" where
  \<comment> \<open>the loop of \<open>extract_refs\<close> with the variables \<open>in_refs\<close> and \<open>refs\<close>\<close>
  "extract_loop in_refs [] refs = refs"
| "extract_loop in_refs (line # lines) refs =
     (if strip line = ''References:'' then extract_loop True lines refs
      else if in_refs then
        (if strip line = [] then refs
         else if startswith (strip line) ''- ''
           then extract_loop in_refs lines (refs @ [drop 2 (strip line)])
         else refs)
      else extract_loop in_refs lines refs)"

definition extract_refs :: "string \<Rightarrow> string list" where
  "extract_refs t = extract_loop False (map rstrip (splitlines t)) []"

definition fill_refs :: "item \<Rightarrow> item" where
  \<comment> \<open>\<open>if "refs" not in test: test["refs"] = extract_refs(test["text"])\<close>\<close>
  "fill_refs t =
     (case item_refs t of
        None \<Rightarrow> t\<lparr>item_refs := Some (extract_refs (item_text t))\<rparr>
      | Some r \<Rightarrow> t)"

fun check_test_ids :: "item list \<Rightarrow> string set \<Rightarrow> error + item list" where
  \<comment> \<open>the first loop over \<open>tests\<close> in \<open>build_payload\<close>, with \<open>seen_test_ids\<close>; the result
      is \<open>tests\<close> with the key \<open>refs\<close> set in every record\<close>
  "check_test_ids [] seen_test_ids = Inr []"
| "check_test_ids (t # ts) seen_test_ids =
     (if item_id t \<in> seen_test_ids
        then Inl (ValueError (''Duplicate test id '' @ quote @ item_id t @ quote))
      else
        (case check_test_ids ts (insert (item_id t) seen_test_ids) of
           Inl e \<Rightarrow> Inl e
         | Inr ts' \<Rightarrow> Inr (fill_refs t # ts')))"

definition dict_by_id :: "item list \<Rightarrow> (string \<rightharpoonup> item)" where
  \<comment> \<open>\<open>{r["id"]: r for r in records}\<close>\<close>
  "dict_by_id records = foldl (\<lambda>m r. m(item_id r \<mapsto> r)) Map.empty records"

definition test_side_links ::
  "(string \<rightharpoonup> item) \<Rightarrow> item list \<Rightarrow> (string \<times> string) set \<Rightarrow> (string \<times> string) set" where
  \<comment> \<open>the loop \<open>for test in tests: for req_id in test["links"]\<close>\<close>
  "test_side_links req_map tests link_set =
     fold (\<lambda>test. fold (\<lambda>req_id ls.
             if req_map req_id \<noteq> None then insert (req_id, item_id test) ls else ls)
           (item_links test)) tests link_set"

definition req_side_links ::
  "(string \<rightharpoonup> item) \<Rightarrow> item list \<Rightarrow> (string \<times> string) set \<Rightarrow> (string \<times> string) set" where
  \<comment> \<open>the loop \<open>for req in reqs: for test_id in req["links"]\<close>\<close>
  "req_side_links test_map reqs link_set =
     fold (\<lambda>req. fold (\<lambda>test_id ls.
             if test_map test_id \<noteq> None then insert (item_id req, test_id) ls else ls)
           (item_links req)) reqs link_set"

definition resolve_links :: "item list \<Rightarrow> item list \<Rightarrow> (string \<times> string) set" where
  \<comment> \<open>the value of \<open>link_set\<close> after both loops; \<open>req_map\<close> and \<open>test_map\<close> are only
      asked whether they have a key\<close>
  "resolve_links reqs tests =
     (let req_map = dict_by_id reqs;
          test_map = dict_by_id tests
      in req_side_links test_map reqs (test_side_links req_map tests {}))"

fun index_links ::
  "(string \<times> string) list \<Rightarrow> (string \<rightharpoonup> string list) \<times> (string \<rightharpoonup> string list)
     \<Rightarrow> error + ((string \<rightharpoonup> string list) \<times> (string \<rightharpoonup> string list))" where
  \<comment> \<open>the loop \<open>for req_id, test_id in sorted(link_set)\<close> on \<open>req_to_tests\<close> and
      \<open>test_to_reqs\<close>; subscripting with a key that is absent raises \<open>KeyError\<close>\<close>
  "index_links [] st = Inr st"
| "index_links ((req_id, test_id) # ls) (req_to_tests, test_to_reqs) =
     (case req_to_tests req_id of
        None \<Rightarrow> Inl (KeyError req_id)
      | Some xs \<Rightarrow>
          (case test_to_reqs test_id of
             None \<Rightarrow> Inl (KeyError test_id)
           | Some ys \<Rightarrow>
               index_links ls (req_to_tests(req_id \<mapsto> xs @ [test_id]),
                               test_to_reqs(test_id \<mapsto> ys @ [req_id]))))"

definition empty_lists :: "(string \<rightharpoonup> item) \<Rightarrow> (string \<rightharpoonup> string list)" where
  \<comment> \<open>\<open>{k: [] for k in m}\<close>\<close>
  "empty_lists m = (\<lambda>k. case m k of None \<Rightarrow> None | Some r \<Rightarrow> Some [])"

definition get_list :: "(string \<rightharpoonup> string list) \<Rightarrow> string \<Rightarrow> string list" where
  \<comment> \<open>\<open>m.get(k, [])\<close>\<close>
  "get_list m k = (case m k of None \<Rightarrow> [] | Some xs \<Rightarrow> xs)"

definition status_of :: "string list \<Rightarrow> string" where
  \<comment> \<open>\<open>"linked" if xs else "unlinked"\<close>\<close>
  "status_of xs = (if xs \<noteq> [] then ''linked'' else ''unlinked'')"

record req_entry =
  req_item :: item
  req_tests :: "string list"       \<comment> \<open>the key \<open>tests\<close>\<close>
  req_status :: string

record test_entry =
  test_item :: item
  test_reqs :: "string list"       \<comment> \<open>the key \<open>reqs\<close>\<close>
  test_status :: string

text \<open>
  The summary without \<open>coverage_pct\<close>, which is a binary floating-point number.
\<close>

record summary =
  requirements_total :: nat
  tests_total :: nat
  links_total :: nat
  requirements_linked :: nat
  requirements_unlinked :: nat
  tests_linked :: nat
  tests_unlinked :: nat

record payload =
  generated_at :: string
  source_root :: string
  summary_of :: summary
  requirements :: "req_entry list"
  tests :: "test_entry list"
  links :: "(string \<times> string) list"

definition make_summary ::
  "req_entry list \<Rightarrow> test_entry list \<Rightarrow> (string \<times> string) set \<Rightarrow> summary" where
  "make_summary rs ts link_set =
     \<lparr>requirements_total = length rs,
      tests_total = length ts,
      links_total = card link_set,
      requirements_linked = length (filter (\<lambda>r. req_tests r \<noteq> []) rs),
      requirements_unlinked = length (filter (\<lambda>r. \<not> req_tests r \<noteq> []) rs),
      tests_linked = length (filter (\<lambda>t. test_reqs t \<noteq> []) ts),
      tests_unlinked = length (filter (\<lambda>t. \<not> test_reqs t \<noteq> []) ts)\<rparr>"

definition resolve :: "string \<Rightarrow> string \<Rightarrow> item list \<Rightarrow> item list \<Rightarrow> error + payload" where
  \<comment> \<open>\<open>build_payload\<close> from the records that the loaders returned: \<open>reqs\<close> and
      \<open>tests = item_tests + scan_tests\<close>; \<open>now\<close> is the formatted time of the call.
      The dictionaries \<open>req_map\<close> and \<open>test_map\<close> hold the records of the lists
      themselves, so \<open>test_map\<close> is read after the first loop has set \<open>refs\<close>.\<close>
  "resolve now display_root reqs tests0 =
     (case check_test_ids tests0 {} of
           Inl e \<Rightarrow> Inl e
         | Inr tests1 \<Rightarrow>
             (let req_map = dict_by_id reqs;
                  test_map = dict_by_id tests1;
                  link_set = resolve_links reqs tests1 in
              case index_links (sorted_list_of_set link_set)
                     (empty_lists req_map, empty_lists test_map) of
                Inl e \<Rightarrow> Inl e
              | Inr (req_to_tests, test_to_reqs) \<Rightarrow>
                  (let rs = map (\<lambda>req.
                              let xs = sort (get_list req_to_tests (item_id req))
                              in \<lparr>req_item = req, req_tests = xs, req_status = status_of xs\<rparr>)
                            reqs;
                       ts = map (\<lambda>test.
                              let xs = sort (get_list test_to_reqs (item_id test))
                              in \<lparr>test_item = test, test_reqs = xs, test_status = status_of xs\<rparr>)
                            tests1
                   in Inr \<lparr>generated_at = now,
                           source_root = display_root,
                           summary_of = make_summary rs ts link_set,
                           requirements = rs,
                           tests = ts,
                           links = sorted_list_of_set link_set\<rparr>)))"

definition build_payload ::
  "(yaml \<Rightarrow> string) \<Rightarrow> string \<Rightarrow> item_file directory list \<Rightarrow> item_file directory list
     \<Rightarrow> scan_file directory list \<Rightarrow> string \<Rightarrow> error + payload" where
  "build_payload repr now req_dirs test_item_dirs test_scan_dirs display_root =
     (case load_items repr req_dirs ''Requirement'' of
        Inl e \<Rightarrow> Inl e
      | Inr reqs \<Rightarrow>
          (case (if test_item_dirs \<noteq> [] then load_items repr test_item_dirs ''Test''
                 else Inr []) of
             Inl e \<Rightarrow> Inl e
           | Inr item_tests \<Rightarrow>
               (case (if test_scan_dirs \<noteq> [] then load_test_annotations test_scan_dirs
                      else Inr []) of
                  Inl e \<Rightarrow> Inl e
                | Inr scan_tests \<Rightarrow>
                    resolve now display_root reqs (item_tests @ scan_tests))))"

section \<open>Reference definitions\<close>

subsection \<open>Block segmentation as a machine with two states\<close>

text \<open>
  The segmentation as the specification words it: the scanner is idle or collecting an
  open block; every line is one transition, which may emit a closed block; the end of
  the file closes an open block.
\<close>

datatype scan_state = Idle | Collecting block

definition is_directive_line :: "string \<Rightarrow> bool" where
  "is_directive_line line \<longleftrightarrow> DIRECTIVE_RE_match line \<noteq> None"

definition update_block :: "string \<Rightarrow> nat \<Rightarrow> string \<Rightarrow> block \<Rightarrow> error + block" where
  "update_block path_label line_no line b =
     (case DIRECTIVE_RE_match line of
        None \<Rightarrow> Inr b
      | Some (g1, g2) \<Rightarrow> apply_directive path_label line_no (strip g1) (strip g2) b)"

fun scan_step ::
  "string \<Rightarrow> scan_state \<Rightarrow> nat \<times> string \<Rightarrow> error + (scan_state \<times> block list)" where
  "scan_step path_label Idle (line_no, line) =
     (if is_directive_line line
        then (case update_block path_label line_no line (new_block line_no) of
                Inl e \<Rightarrow> Inl e
              | Inr b \<Rightarrow> Inr (Collecting b, []))
      else Inr (Idle, []))"
| "scan_step path_label (Collecting b) (line_no, line) =
     (if is_directive_line line
        then (case update_block path_label line_no line b of
                Inl e \<Rightarrow> Inl e
              | Inr b' \<Rightarrow> Inr (Collecting b', []))
      else Inr (Idle, [b]))"

fun scan_run :: "string \<Rightarrow> scan_state \<Rightarrow> (nat \<times> string) list \<Rightarrow> error + block list" where
  "scan_run path_label st [] = Inr (case st of Idle \<Rightarrow> [] | Collecting b \<Rightarrow> [b])"
| "scan_run path_label st (nl # rest) =
     (case scan_step path_label st nl of
        Inl e \<Rightarrow> Inl e
      | Inr (st', out) \<Rightarrow>
          (case scan_run path_label st' rest of
             Inl e \<Rightarrow> Inl e
           | Inr bs \<Rightarrow> Inr (out @ bs)))"

definition segment_blocks :: "string list \<Rightarrow> string \<Rightarrow> error + block list" where
  "segment_blocks lines path_label =
     scan_run path_label Idle (zip [1 ..< Suc (length lines)] lines)"

definition state_of :: "block option \<Rightarrow> scan_state" where
  "state_of current = (case current of None \<Rightarrow> Idle | Some b \<Rightarrow> Collecting b)"

subsection \<open>The payload in closed form\<close>

definition tests_of_req :: "(string \<times> string) list \<Rightarrow> string \<Rightarrow> string list" where
  "tests_of_req ls k = map snd (filter (\<lambda>p. fst p = k) ls)"

definition reqs_of_test :: "(string \<times> string) list \<Rightarrow> string \<Rightarrow> string list" where
  "reqs_of_test ls k = map fst (filter (\<lambda>p. snd p = k) ls)"

definition req_entry_of :: "(string \<times> string) list \<Rightarrow> item \<Rightarrow> req_entry" where
  "req_entry_of ls req =
     (let xs = sort (tests_of_req ls (item_id req))
      in \<lparr>req_item = req, req_tests = xs, req_status = status_of xs\<rparr>)"

definition test_entry_of :: "(string \<times> string) list \<Rightarrow> item \<Rightarrow> test_entry" where
  "test_entry_of ls t =
     (let xs = sort (reqs_of_test ls (item_id t))
      in \<lparr>test_item = t, test_reqs = xs, test_status = status_of xs\<rparr>)"

definition payload_of :: "string \<Rightarrow> string \<Rightarrow> item list \<Rightarrow> item list \<Rightarrow> payload" where
  "payload_of now display_root reqs ts1 =
     (let ls = sorted_list_of_set (resolve_links reqs ts1);
          rs = map (req_entry_of ls) reqs;
          es = map (test_entry_of ls) ts1
      in \<lparr>generated_at = now, source_root = display_root,
          summary_of = make_summary rs es (resolve_links reqs ts1),
          requirements = rs, tests = es, links = ls\<rparr>)"

subsection \<open>Reference lists in the text of a record\<close>

text \<open>
  \<open>refs_as_claimed\<close> reads the lines as the specification words it: the entries that
  follow the first line \<open>References:\<close>, up to the first line that is no entry.
  \<open>collected_refs\<close> also passes over every later line \<open>References:\<close>.
\<close>

definition is_refs_header :: "string \<Rightarrow> bool" where
  "is_refs_header line \<longleftrightarrow> strip line = ''References:''"

definition is_refs_entry :: "string \<Rightarrow> bool" where
  "is_refs_entry line \<longleftrightarrow> startswith (strip line) ''- ''"

definition refs_as_claimed :: "string list \<Rightarrow> string list" where
  "refs_as_claimed ls =
     (case dropWhile (\<lambda>l. \<not> is_refs_header l) ls of
        [] \<Rightarrow> []
      | h # rest \<Rightarrow> map (\<lambda>l. drop 2 (strip l)) (takeWhile is_refs_entry rest))"

definition collected_refs :: "string list \<Rightarrow> string list" where
  "collected_refs ls =
     (case dropWhile (\<lambda>l. \<not> is_refs_header l) ls of
        [] \<Rightarrow> []
      | h # rest \<Rightarrow>
          map (\<lambda>l. drop 2 (strip l))
            (takeWhile is_refs_entry (filter (\<lambda>l. \<not> is_refs_header l) rest)))"

subsection \<open>The records of the loaders in closed form\<close>

definition file_kvs :: "item_file \<Rightarrow> (yaml \<times> yaml) list" where
  "file_kvs f = (case py_or (file_data f) (YMap []) of YMap kvs \<Rightarrow> kvs | _ \<Rightarrow> [])"

definition is_mapping_file :: "item_file \<Rightarrow> bool" where
  "is_mapping_file f \<longleftrightarrow> (case py_or (file_data f) (YMap []) of YMap kvs \<Rightarrow> True | _ \<Rightarrow> False)"

definition file_uid :: "(yaml \<Rightarrow> string) \<Rightarrow> item_file \<Rightarrow> string" where
  "file_uid repr f = item_uid repr f (file_kvs f)"

definition item_of_file :: "(yaml \<Rightarrow> string) \<Rightarrow> item_file \<Rightarrow> item" where
  "item_of_file repr f =
     \<lparr>item_id = file_uid repr f, item_text = rstrip (item_text_of repr (file_kvs f)),
      item_links = item_links_of repr (file_kvs f), item_path = file_rel f, item_refs = None\<rparr>"

definition dir_files :: "'f directory \<Rightarrow> 'f list" where
  "dir_files d = (case d of Missing p \<Rightarrow> [] | Directory fs \<Rightarrow> fs)"

definition item_files :: "item_file directory list \<Rightarrow> item_file list" where
  "item_files dirs = filter (\<lambda>f. file_name f \<notin> SKIP_NAMES) (concat (map dir_files dirs))"

definition claimed_ids :: "(yaml \<Rightarrow> string) \<Rightarrow> item_file directory list \<Rightarrow> string list" where
  "claimed_ids repr dirs = map (file_uid repr) (item_files dirs)"

definition duplicate_item_error :: "string \<Rightarrow> string \<Rightarrow> error" where
  "duplicate_item_error uid file =
     ValueError (''Duplicate item id '' @ quote @ uid @ quote @ '' in '' @ file)"

definition block_item :: "string \<Rightarrow> block \<Rightarrow> item" where
  "block_item label b =
     \<lparr>item_id = effective_id label b, item_text = marker_text label b,
      item_links = block_reqs b, item_path = label, item_refs = Some (block_refs b)\<rparr>"


subsection \<open>Substrings\<close>


subsection \<open>Reading a decimal number\<close>


subsection \<open>Example inputs\<close>

text \<open>
  The example of the specification: requirement \<open>R1\<close> without links and \<open>R2\<close> linking to
  \<open>T9\<close> and to a test that does not exist, the declarative test \<open>T1\<close> linking to \<open>R1\<close>,
  and a scanned block with the id \<open>T9\<close> linking to \<open>R2\<close>.
\<close>

definition example_R1_file :: item_file where
  "example_R1_file = \<lparr>file_name = ''R1.yml'', file_stem = ''R1'',
     file_str = ''/proj/reqs/mon/R1.yml'', file_rel = ''reqs/mon/R1.yml'',
     file_data = YMap [(YStr ''text'', YStr ''first requirement''), (YStr ''links'', YList [])]\<rparr>"

definition example_R2_file :: item_file where
  "example_R2_file = \<lparr>file_name = ''R2.yml'', file_stem = ''R2'',
     file_str = ''/proj/reqs/mon/R2.yml'', file_rel = ''reqs/mon/R2.yml'',
     file_data = YMap [(YStr ''text'', YStr ''second requirement''),
                       (YStr ''links'', YList [YStr ''T9'', YStr ''T77''])]\<rparr>"

definition example_T1_file :: item_file where
  "example_T1_file = \<lparr>file_name = ''T1.yml'', file_stem = ''T1'',
     file_str = ''/proj/reqs/tst/T1.yml'', file_rel = ''reqs/tst/T1.yml'',
     file_data = YMap [(YStr ''text'', YStr ''first test''), (YStr ''links'', YList [YStr ''R1''])]\<rparr>"

definition example_scan_file :: scan_file where
  "example_scan_file = \<lparr>file_label = ''/proj/src/a.go'', rel_label = ''src/a.go'',
     content = Some (''package a'' @ [CHR 0x0A] @ ''// HODOR-ID: T9'' @ [CHR 0x0A]
                     @ ''// HODOR-REQS: R2'' @ [CHR 0x0A] @ ''func f() {}'' @ [CHR 0x0A])\<rparr>"

definition example_payload :: payload where
  "example_payload =
     \<lparr>generated_at = ''now'', source_root = ''.'',
      summary_of =
        \<lparr>requirements_total = 2, tests_total = 2, links_total = 2,
         requirements_linked = 2, requirements_unlinked = 0,
         tests_linked = 2, tests_unlinked = 0\<rparr>,
      requirements =
        [\<lparr>req_item =
            \<lparr>item_id = ''R1'', item_text = ''first requirement'',
             item_links = [], item_path = ''reqs/mon/R1.yml'', item_refs = None\<rparr>,
          req_tests = [''T1''], req_status = ''linked''\<rparr>,
         \<lparr>req_item =
            \<lparr>item_id = ''R2'', item_text = ''second requirement'',
             item_links = [''T9'', ''T77''], item_path = ''reqs/mon/R2.yml'',
             item_refs = None\<rparr>,
          req_tests = [''T9''], req_status = ''linked''\<rparr>],
      tests =
        [\<lparr>test_item =
            \<lparr>item_id = ''T1'', item_text = ''first test'',
             item_links = [''R1''], item_path = ''reqs/tst/T1.yml'', item_refs = Some []\<rparr>,
          test_reqs = [''R1''], test_status = ''linked''\<rparr>,
         \<lparr>test_item =
            \<lparr>item_id = ''T9'', item_text = ''Traceability marker in src/a.go'',
             item_links = [''R2''], item_path = ''src/a.go'', item_refs = Some []\<rparr>,
          test_reqs = [''R2''], test_status = ''linked''\<rparr>],
      links = [(''R1'', ''T1''), (''R2'', ''T9'')]\<rparr>"

text \<open>A file whose block has a \<open>HODOR-ID\<close> directive with only white space as value.\<close>

definition example_empty_id_file :: scan_file where
  "example_empty_id_file = \<lparr>file_label = ''/proj/src/b.py'', rel_label = ''src/b.py'',
     content = Some (''# HODOR-ID:   '' @ [CHR 0x0A] @ ''# HODOR-REQS: R1'' @ [CHR 0x0A])\<rparr>"

text \<open>
  A text with two lines \<open>References:\<close>, a declarative test without links, two item files
  with the same \<open>uid\<close>, a declarative test with the id of the scanned block, and a
  declarative test whose text is the one with the references.
\<close>

definition example_refs_text :: string where
  "example_refs_text = ''checks the parser'' @ [CHR 0x0A] @ ''References:'' @ [CHR 0x0A]
     @ ''- spec 4.2'' @ [CHR 0x0A] @ ''References:'' @ [CHR 0x0A] @ ''- issue 12''"




definition example_T9_file :: item_file where
  "example_T9_file = \<lparr>file_name = ''T9.yml'', file_stem = ''T9'',
     file_str = ''/proj/reqs/tst/T9.yml'', file_rel = ''reqs/tst/T9.yml'',
     file_data = YMap [(YStr ''text'', YStr ''ninth test''), (YStr ''links'', YList [YStr ''R2''])]\<rparr>"

definition example_refs_file :: item_file where
  "example_refs_file = \<lparr>file_name = ''T3.yml'', file_stem = ''T3'',
     file_str = ''/proj/reqs/tst/T3.yml'', file_rel = ''reqs/tst/T3.yml'',
     file_data = YMap [(YStr ''text'', YStr example_refs_text), (YStr ''links'', YStr ''R1'')]\<rparr>"

text \<open>Two records with a link declared from both sides and a dangling link on each.\<close>

definition example_req :: item where
  "example_req = \<lparr>item_id = ''R2'', item_text = ''second requirement'',
     item_links = [''T9'', ''T77''], item_path = ''reqs/R2.yml'', item_refs = None\<rparr>"

definition example_test :: item where
  "example_test = \<lparr>item_id = ''T9'', item_text = ''Traceability marker in src/a.go'',
     item_links = [''R2'', ''R5''], item_path = ''src/a.go'', item_refs = Some []\<rparr>"

section \<open>Properties of the annotation scanner\<close>

lemma parse_loop_scan_run:
  "parse_loop path_label n lines blocks current =
     (case scan_run path_label (state_of current) (zip [n ..< n + length lines] lines) of
        Inl e \<Rightarrow> Inl e
      | Inr bs \<Rightarrow> Inr (blocks @ bs))"
proof (induction lines arbitrary: n blocks current)
  case Nil
  then show ?case by (simp add: state_of_def split: option.splits)
next
  case (Cons line lines)
  have z: "zip [n ..< n + length (line # lines)] (line # lines)
            = (n, line) # zip [Suc n ..< Suc n + length lines] lines"
    by (subst upt_rec) (simp del: upt_Suc)
  show ?case
    unfolding z
    by (cases current)
       (auto simp: Cons.IH state_of_def is_directive_line_def update_block_def Let_def
             split: option.splits sum.splits prod.splits)
qed

text \<open>
  A line that is no directive cuts the input in two: the blocks of the whole are the
  blocks of the lines before it, closed as at the end of a file, followed by the blocks
  of the lines after it, read from the idle state.
\<close>

lemma scan_run_gap:
  assumes "\<not> is_directive_line line"
  shows "scan_run path_label st (xs @ (n, line) # ys) =
     (case scan_run path_label st xs of
        Inl e \<Rightarrow> Inl e
      | Inr bs \<Rightarrow>
          (case scan_run path_label Idle ys of
             Inl e \<Rightarrow> Inl e
           | Inr cs \<Rightarrow> Inr (bs @ cs)))"
proof (induction xs arbitrary: st)
  case Nil
  show ?case using assms by (cases st) (simp_all split: sum.splits)
next
  case (Cons x xs)
  show ?case
    by (cases "scan_step path_label st x") (auto simp: Cons.IH split: sum.splits)
qed

text \<open>
  C6: for every sequence of lines, \<open>parse_hodor_blocks\<close> is the machine with the states
  idle and collecting: a directive line read when idle opens a block whose
  \<open>start_line\<close> is the number of that line, a directive line read when collecting
  updates the open block, a line that is no directive closes and emits the open block
  and belongs to no block, and the end of the input emits a block that is still open.
  An unknown directive is the same error in both.
\<close>

theorem parse_hodor_blocks_state_machine:
  "parse_hodor_blocks lines path_label = segment_blocks lines path_label"
proof -
  have "zip [1 ..< 1 + length lines] lines = zip [1 ..< Suc (length lines)] lines"
    by simp
  then show ?thesis
    unfolding parse_hodor_blocks_def segment_blocks_def
    by (simp add: parse_loop_scan_run [where current = None and blocks = "[]"] state_of_def
        split: sum.splits del: upt_Suc)
qed

theorem parse_hodor_blocks_state_machine_witness:
  "parse_hodor_blocks
     [''package a'', ''// HODOR-ID: T9'', ''// HODOR-REQS: R2, R3'', '''',
      ''# HODOR-REQS: R1'', ''# HODOR-TEXT: checks the parser''] ''src/a.go''
   = Inr [\<lparr>block_id = Some ''T9'', block_reqs = [''R2'', ''R3''], block_refs = [],
            block_text = [], start_line = 2\<rparr>,
          \<lparr>block_id = None, block_reqs = [''R1''], block_refs = [],
            block_text = [''checks the parser''], start_line = 5\<rparr>]"
  unfolding parse_hodor_blocks_state_machine by code_simp

section \<open>Properties of the link resolver\<close>

lemma foldl_dict_dom:
  "dom (foldl (\<lambda>m r. m(item_id r \<mapsto> r)) m rs) = dom m \<union> item_id ` set rs"
  by (induction rs arbitrary: m) auto

lemma dict_by_id_dom: "(dict_by_id rs k \<noteq> None) = (k \<in> item_id ` set rs)"
  using foldl_dict_dom [of Map.empty rs] by (auto simp: dict_by_id_def dom_def)

lemma fold_insert_links:
  "fold (\<lambda>x ls. if P x then insert (f x) ls else ls) xs S = S \<union> f ` {x \<in> set xs. P x}"
  by (induction xs arbitrary: S) auto

lemma test_side_links_eq:
  "test_side_links m ts S =
     S \<union> {(r, item_id t) | r t. t \<in> set ts \<and> r \<in> set (item_links t) \<and> m r \<noteq> None}"
  unfolding test_side_links_def
proof (induction ts arbitrary: S)
  case Nil
  then show ?case by simp
next
  case (Cons t ts)
  show ?case
    by (simp add: Cons.IH fold_insert_links [where f = "\<lambda>r. (r, item_id t)"]
          del: not_None_eq) blast
qed

lemma req_side_links_eq:
  "req_side_links m rs S =
     S \<union> {(item_id r, t) | r t. r \<in> set rs \<and> t \<in> set (item_links r) \<and> m t \<noteq> None}"
  unfolding req_side_links_def
proof (induction rs arbitrary: S)
  case Nil
  then show ?case by simp
next
  case (Cons r rs)
  show ?case
    by (simp add: Cons.IH fold_insert_links [where f = "\<lambda>t. (item_id r, t)"]
          del: not_None_eq) blast
qed

lemma resolve_links_eq:
  "resolve_links reqs ts =
     {(r, item_id t) | r t. t \<in> set ts \<and> r \<in> set (item_links t) \<and> r \<in> item_id ` set reqs}
     \<union> {(item_id r, t) | r t. r \<in> set reqs \<and> t \<in> set (item_links r) \<and> t \<in> item_id ` set ts}"
  by (simp add: resolve_links_def Let_def test_side_links_eq req_side_links_eq dict_by_id_dom
        del: not_None_eq)

lemma finite_resolve_links: "finite (resolve_links reqs ts)"
proof -
  have "resolve_links reqs ts \<subseteq> (item_id ` set reqs) \<times> (item_id ` set ts)"
    unfolding resolve_links_eq by auto
  then show ?thesis by (rule finite_subset) simp
qed

lemma resolve_links_endpoints:
  "(r, t) \<in> resolve_links reqs ts \<Longrightarrow> r \<in> item_id ` set reqs \<and> t \<in> item_id ` set ts"
  unfolding resolve_links_eq by auto


lemma fill_refs_simps [simp]:
  "item_id (fill_refs t) = item_id t"
  "item_links (fill_refs t) = item_links t"
  "item_text (fill_refs t) = item_text t"
  "item_path (fill_refs t) = item_path t"
  by (simp_all add: fill_refs_def split: option.splits)

lemma check_test_ids_Inr:
  "check_test_ids ts seen = Inr ts' \<Longrightarrow>
     ts' = map fill_refs ts \<and> distinct (map item_id ts) \<and> item_id ` set ts \<inter> seen = {}"
proof (induction ts arbitrary: seen ts')
  case Nil
  then show ?case by simp
next
  case (Cons t ts)
  from Cons.prems have notin: "item_id t \<notin> seen"
    by (auto split: if_splits)
  with Cons.prems obtain us where
    us: "check_test_ids ts (insert (item_id t) seen) = Inr us" and ts': "ts' = fill_refs t # us"
    by (auto simp: fill_refs_def split: sum.splits)
  from Cons.IH [OF us] notin ts' show ?case by auto
qed

lemma check_test_ids_ok:
  "distinct (map item_id ts) \<Longrightarrow> item_id ` set ts \<inter> seen = {} \<Longrightarrow>
     check_test_ids ts seen = Inr (map fill_refs ts)"
proof (induction ts arbitrary: seen)
  case Nil
  then show ?case by simp
next
  case (Cons t ts)
  from Cons.prems have "check_test_ids ts (insert (item_id t) seen) = Inr (map fill_refs ts)"
    by (intro Cons.IH) auto
  with Cons.prems show ?case by (auto simp: fill_refs_def)
qed

lemma check_test_ids_dup:
  "distinct (map item_id pre) \<Longrightarrow> item_id ` set pre \<inter> seen = {} \<Longrightarrow>
   item_id t \<in> seen \<union> item_id ` set pre \<Longrightarrow>
     check_test_ids (pre @ t # rest) seen
       = Inl (ValueError (''Duplicate test id '' @ quote @ item_id t @ quote))"
proof (induction pre arbitrary: seen)
  case Nil
  then show ?case by simp
next
  case (Cons p pre)
  from Cons.prems have "check_test_ids (pre @ t # rest) (insert (item_id p) seen)
       = Inl (ValueError (''Duplicate test id '' @ quote @ item_id t @ quote))"
    by (intro Cons.IH) auto
  with Cons.prems show ?case by auto
qed

lemma check_test_ids_Inl:
  "check_test_ids ts seen = Inl e \<Longrightarrow>
     \<exists>i. e = ValueError (''Duplicate test id '' @ quote @ i @ quote)
        \<and> i \<in> item_id ` set ts
        \<and> (\<not> distinct (map item_id ts) \<or> item_id ` set ts \<inter> seen \<noteq> {})"
proof (induction ts arbitrary: seen)
  case Nil
  then show ?case by simp
next
  case (Cons t ts)
  show ?case
  proof (cases "item_id t \<in> seen")
    case True
    with Cons.prems show ?thesis by auto
  next
    case False
    with Cons.prems have e: "check_test_ids ts (insert (item_id t) seen) = Inl e"
      by (auto split: sum.splits)
    from Cons.IH [OF e] show ?thesis by auto
  qed
qed

lemma index_links_ok:
  "\<forall>p\<in>set ls. fst p \<in> dom rt \<and> snd p \<in> dom tr \<Longrightarrow>
     index_links ls (rt, tr) =
       Inr (\<lambda>k. case rt k of None \<Rightarrow> None | Some xs \<Rightarrow> Some (xs @ tests_of_req ls k),
            \<lambda>k. case tr k of None \<Rightarrow> None | Some ys \<Rightarrow> Some (ys @ reqs_of_test ls k))"
proof (induction ls arbitrary: rt tr)
  case Nil
  then show ?case by (simp add: tests_of_req_def reqs_of_test_def fun_eq_iff split: option.splits)
next
  case (Cons p ls)
  obtain r t where p: "p = (r, t)" by (cases p)
  from Cons.prems p obtain xs ys where xs: "rt r = Some xs" and ys: "tr t = Some ys"
    by auto
  have "\<forall>p\<in>set ls. fst p \<in> dom (rt(r \<mapsto> xs @ [t])) \<and> snd p \<in> dom (tr(t \<mapsto> ys @ [r]))"
    using Cons.prems by auto
  from Cons.IH [OF this]
  have "index_links ls (rt(r \<mapsto> xs @ [t]), tr(t \<mapsto> ys @ [r])) =
       Inr (\<lambda>k. case (rt(r \<mapsto> xs @ [t])) k of None \<Rightarrow> None
                 | Some xs \<Rightarrow> Some (xs @ tests_of_req ls k),
            \<lambda>k. case (tr(t \<mapsto> ys @ [r])) k of None \<Rightarrow> None
                 | Some ys \<Rightarrow> Some (ys @ reqs_of_test ls k))" .
  moreover have "index_links (p # ls) (rt, tr)
       = index_links ls (rt(r \<mapsto> xs @ [t]), tr(t \<mapsto> ys @ [r]))"
    by (simp add: p xs ys)
  moreover have "(\<lambda>k. case (rt(r \<mapsto> xs @ [t])) k of None \<Rightarrow> None
                 | Some xs \<Rightarrow> Some (xs @ tests_of_req ls k))
      = (\<lambda>k. case rt k of None \<Rightarrow> None | Some xs \<Rightarrow> Some (xs @ tests_of_req (p # ls) k))"
    by (auto simp: p xs tests_of_req_def fun_eq_iff split: option.splits)
  moreover have "(\<lambda>k. case (tr(t \<mapsto> ys @ [r])) k of None \<Rightarrow> None
                 | Some ys \<Rightarrow> Some (ys @ reqs_of_test ls k))
      = (\<lambda>k. case tr k of None \<Rightarrow> None | Some ys \<Rightarrow> Some (ys @ reqs_of_test (p # ls) k))"
    by (auto simp: p ys reqs_of_test_def fun_eq_iff split: option.splits)
  ultimately show ?case by simp
qed


lemma resolve_links_fill_refs [simp]:
  "resolve_links reqs (map fill_refs ts) = resolve_links reqs ts"
proof -
  have A: "{(r, item_id t) | r t. t \<in> S \<and> r \<in> set (item_links t) \<and> r \<in> I}
         = (\<Union>t\<in>S. (\<lambda>r. (r, item_id t)) ` {r \<in> set (item_links t). r \<in> I})" for S I
    by auto
  have B: "(t \<in> item_id ` set (map fill_refs ts)) = (t \<in> item_id ` set ts)" for t
    by (simp add: image_image)
  show ?thesis
    unfolding resolve_links_eq A B by (simp add: image_image)
qed

lemma dom_empty_lists: "dom (empty_lists m) = dom m"
  by (auto simp: empty_lists_def dom_def split: option.splits)

lemma dom_dict_by_id: "dom (dict_by_id rs) = item_id ` set rs"
  using dict_by_id_dom [of rs] by (auto simp: dom_def simp del: not_None_eq)

lemma resolve_after_check:
  assumes "check_test_ids ts {} = Inr ts1"
  shows "resolve now display_root reqs ts = Inr (payload_of now display_root reqs ts1)"
proof -
  let ?L = "resolve_links reqs ts1"
  let ?ls = "sorted_list_of_set ?L"
  have "\<forall>p\<in>set ?ls. fst p \<in> dom (empty_lists (dict_by_id reqs))
          \<and> snd p \<in> dom (empty_lists (dict_by_id ts1))"
    using resolve_links_endpoints [of _ _ reqs ts1]
    by (auto simp: finite_resolve_links dom_empty_lists dom_dict_by_id)
  from index_links_ok [OF this]
  have idx: "index_links ?ls (empty_lists (dict_by_id reqs), empty_lists (dict_by_id ts1)) =
       Inr (\<lambda>k. case empty_lists (dict_by_id reqs) k of None \<Rightarrow> None
                 | Some xs \<Rightarrow> Some (xs @ tests_of_req ?ls k),
            \<lambda>k. case empty_lists (dict_by_id ts1) k of None \<Rightarrow> None
                 | Some ys \<Rightarrow> Some (ys @ reqs_of_test ?ls k))" .
  have r: "req \<in> set reqs \<Longrightarrow>
      get_list (\<lambda>k. case empty_lists (dict_by_id reqs) k of None \<Rightarrow> None
                 | Some xs \<Rightarrow> Some (xs @ tests_of_req ?ls k)) (item_id req)
       = tests_of_req ?ls (item_id req)" for req
    using dict_by_id_dom [of reqs "item_id req"]
    by (auto simp: get_list_def empty_lists_def split: option.splits)
  have t: "t \<in> set ts1 \<Longrightarrow>
      get_list (\<lambda>k. case empty_lists (dict_by_id ts1) k of None \<Rightarrow> None
                 | Some ys \<Rightarrow> Some (ys @ reqs_of_test ?ls k)) (item_id t)
       = reqs_of_test ?ls (item_id t)" for t
    using dict_by_id_dom [of ts1 "item_id t"]
    by (auto simp: get_list_def empty_lists_def split: option.splits)
  show ?thesis
    unfolding resolve_def payload_of_def
    by (simp add: assms Let_def idx r t req_entry_of_def test_entry_of_def cong: map_cong)
qed

lemma resolve_ok:
  assumes "distinct (map item_id ts)"
  shows "resolve now display_root reqs ts = Inr (payload_of now display_root reqs (map fill_refs ts))"
  using check_test_ids_ok [OF assms, of "{}"] by (simp add: resolve_after_check)

lemma resolve_Inr:
  assumes "resolve now display_root reqs ts = Inr p"
  shows "distinct (map item_id ts) \<and> p = payload_of now display_root reqs (map fill_refs ts)"
proof (cases "check_test_ids ts {}")
  case (Inl e)
  with assms show ?thesis by (simp add: resolve_def)
next
  case (Inr ts1)
  from check_test_ids_Inr [OF Inr] resolve_after_check [OF Inr, of now display_root reqs] assms
  show ?thesis by simp
qed

lemma resolve_Inl:
  assumes "resolve now display_root reqs ts = Inl e"
  shows "\<not> distinct (map item_id ts) \<and>
         (\<exists>i\<in>item_id ` set ts. e = ValueError (''Duplicate test id '' @ quote @ i @ quote))"
proof (cases "check_test_ids ts {}")
  case (Inl e')
  with assms have "e' = e" by (simp add: resolve_def)
  with check_test_ids_Inl [OF Inl] show ?thesis by auto
next
  case (Inr ts1)
  with resolve_after_check [OF Inr, of now display_root reqs] assms show ?thesis by simp
qed

lemma payload_of_simps [simp]:
  "links (payload_of now dr reqs ts1) = sorted_list_of_set (resolve_links reqs ts1)"
  "requirements (payload_of now dr reqs ts1)
     = map (req_entry_of (sorted_list_of_set (resolve_links reqs ts1))) reqs"
  "tests (payload_of now dr reqs ts1)
     = map (test_entry_of (sorted_list_of_set (resolve_links reqs ts1))) ts1"
  "summary_of (payload_of now dr reqs ts1)
     = make_summary (map (req_entry_of (sorted_list_of_set (resolve_links reqs ts1))) reqs)
         (map (test_entry_of (sorted_list_of_set (resolve_links reqs ts1))) ts1)
         (resolve_links reqs ts1)"
  by (simp_all add: payload_of_def Let_def)

lemma entry_of_simps [simp]:
  "req_item (req_entry_of ls r) = r"
  "req_tests (req_entry_of ls r) = sort (tests_of_req ls (item_id r))"
  "req_status (req_entry_of ls r) = status_of (sort (tests_of_req ls (item_id r)))"
  "test_item (test_entry_of ls t) = t"
  "test_reqs (test_entry_of ls t) = sort (reqs_of_test ls (item_id t))"
  "test_status (test_entry_of ls t) = status_of (sort (reqs_of_test ls (item_id t)))"
  by (simp_all add: req_entry_of_def test_entry_of_def Let_def)

lemma distinct_count_list_1: "distinct xs \<Longrightarrow> x \<in> set xs \<Longrightarrow> count_list xs x = 1"
  by (induction xs) auto

text \<open>
  C1: for every list of requirement records and of test records, every pair of the
  resolved links has its requirement id among the requirement records and its test id
  among the test records, so a declared id without a counterpart yields no link; and
  resolution returns a payload whenever the test ids are distinct, whatever the declared
  links are: the only error of resolution is a duplicate test id.
\<close>

theorem resolve_no_dangling_links:
  "(distinct (map item_id ts) \<longrightarrow> (\<exists>p. resolve now dr reqs ts = Inr p))
   \<and> (resolve now dr reqs ts = Inl e \<longrightarrow> \<not> distinct (map item_id ts))
   \<and> (resolve now dr reqs ts = Inr p \<longrightarrow>
         map (item_id \<circ> req_item) (requirements p) = map item_id reqs
       \<and> map (item_id \<circ> test_item) (tests p) = map item_id ts
       \<and> (\<forall>(r, t)\<in>set (links p). r \<in> item_id ` set reqs \<and> t \<in> item_id ` set ts))"
proof (intro conjI impI)
  assume "distinct (map item_id ts)"
  then show "\<exists>p. resolve now dr reqs ts = Inr p"
    by (simp add: resolve_ok)
next
  assume "resolve now dr reqs ts = Inl e"
  then show "\<not> distinct (map item_id ts)"
    by (simp add: resolve_Inl)
next
  assume "resolve now dr reqs ts = Inr p"
  then have p: "p = payload_of now dr reqs (map fill_refs ts)"
    by (simp add: resolve_Inr)
  show "map (item_id \<circ> req_item) (requirements p) = map item_id reqs"
    by (simp add: p)
  show "map (item_id \<circ> test_item) (tests p) = map item_id ts"
    by (simp add: p)
  show "\<forall>(r, t)\<in>set (links p). r \<in> item_id ` set reqs \<and> t \<in> item_id ` set ts"
    using resolve_links_endpoints [of _ _ reqs ts]
    by (auto simp: p finite_resolve_links)
qed

theorem resolve_no_dangling_links_witness:
  "distinct (map item_id [example_test])
   \<and> (\<exists>p. resolve ''now'' ''.'' [example_req] [example_test] = Inr p
          \<and> links p = [(''R2'', ''T9'')])"
proof -
  have d: "distinct (map item_id [example_test])" by simp
  with resolve_no_dangling_links [of "[example_test]" "''now''" "''.''" "[example_req]"]
  obtain p where p: "resolve ''now'' ''.'' [example_req] [example_test] = Inr p"
    by blast
  moreover have "links (payload_of ''now'' ''.'' [example_req] (map fill_refs [example_test]))
      = [(''R2'', ''T9'')]"
    by code_simp
  ultimately show ?thesis using d by (auto simp: resolve_ok)
qed

text \<open>
  C3: the resolved links are, without repetition and in sorted order, exactly the union
  of the links declared by tests and of the links declared by requirements, among
  existing records; a link between an existing requirement and an existing test that is
  declared on either side or on both occurs exactly once.
\<close>

theorem links_deduplicated_union:
  assumes "resolve now dr reqs ts = Inr p"
  shows "distinct (links p) \<and> sorted (links p)
     \<and> set (links p) =
         {(r, item_id t) | r t. t \<in> set ts \<and> r \<in> set (item_links t) \<and> r \<in> item_id ` set reqs}
         \<union> {(item_id r, t) | r t. r \<in> set reqs \<and> t \<in> set (item_links r) \<and> t \<in> item_id ` set ts}
     \<and> (\<forall>R\<in>set reqs. \<forall>T\<in>set ts.
           item_id R \<in> set (item_links T) \<or> item_id T \<in> set (item_links R)
             \<longrightarrow> count_list (links p) (item_id R, item_id T) = 1)"
proof -
  from assms have p: "p = payload_of now dr reqs (map fill_refs ts)"
    by (simp add: resolve_Inr)
  have l: "links p = sorted_list_of_set (resolve_links reqs ts)"
    by (simp add: p)
  have d: "distinct (links p)" and s: "sorted (links p)"
    by (simp_all add: l)
  have e: "set (links p) = resolve_links reqs ts"
    by (simp add: l finite_resolve_links)
  have c: "count_list (links p) (item_id R, item_id T) = 1"
    if "R \<in> set reqs" "T \<in> set ts"
       "item_id R \<in> set (item_links T) \<or> item_id T \<in> set (item_links R)" for R T
  proof -
    from that have "(item_id R, item_id T) \<in> resolve_links reqs ts"
      unfolding resolve_links_eq by auto
    with d e show ?thesis by (simp add: distinct_count_list_1)
  qed
  from d s e c show ?thesis unfolding resolve_links_eq by blast
qed


theorem links_deduplicated_union_witness:
  "\<exists>p. resolve ''now'' ''.'' [example_req] [example_test] = Inr p
       \<and> example_req \<in> set [example_req] \<and> example_test \<in> set [example_test]
       \<and> item_id example_req \<in> set (item_links example_test)
       \<and> item_id example_test \<in> set (item_links example_req)
       \<and> count_list (links p) (''R2'', ''T9'') = 1"
proof -
  have d: "distinct (map item_id [example_test])" by simp
  let ?p = "payload_of ''now'' ''.'' [example_req] (map fill_refs [example_test])"
  have r: "resolve ''now'' ''.'' [example_req] [example_test] = Inr ?p"
    using d by (rule resolve_ok)
  have i: "item_id example_req = ''R2''" "item_id example_test = ''T9''"
    "item_links example_test = [''R2'', ''R5'']" "item_links example_req = [''T9'', ''T77'']"
    by (simp_all add: example_req_def example_test_def)
  from links_deduplicated_union [OF r]
  have "count_list (links ?p) (item_id example_req, item_id example_test) = 1"
    by (simp add: i)
  with r i show ?thesis by simp
qed

lemma build_payload_Inr:
  assumes "build_payload repr now rd td sd dr = Inr p"
  shows "\<exists>reqs ts. resolve now dr reqs ts = Inr p"
  using assms unfolding build_payload_def
  by (auto split: sum.splits if_splits)

lemma length_filter_partition:
  "length (filter (\<lambda>x. f x \<noteq> []) xs) + length (filter (\<lambda>x. f x = []) xs) = length xs"
  by (induction xs) auto

lemma status_of_linked: "(status_of xs = ''linked'') = (xs \<noteq> [])"
  by (simp add: status_of_def)

lemma status_of_unlinked: "(status_of xs = ''unlinked'') = (xs = [])"
  by (simp add: status_of_def)

text \<open>
  C8: in every payload the run produces, linked and unlinked requirements add up to all
  requirements and linked and unlinked tests to all tests, the counts are those of the
  records with the respective status, and a record has the status linked exactly when
  its resolved list of tests (of requirements) is not empty, and unlinked otherwise.
\<close>

theorem summary_counts_partition:
  assumes "build_payload repr now rd td sd dr = Inr p"
  shows "requirements_linked (summary_of p) + requirements_unlinked (summary_of p)
           = requirements_total (summary_of p)
       \<and> tests_linked (summary_of p) + tests_unlinked (summary_of p) = tests_total (summary_of p)
       \<and> requirements_total (summary_of p) = length (requirements p)
       \<and> tests_total (summary_of p) = length (tests p)
       \<and> requirements_linked (summary_of p)
           = length (filter (\<lambda>r. req_status r = ''linked'') (requirements p))
       \<and> requirements_unlinked (summary_of p)
           = length (filter (\<lambda>r. req_status r = ''unlinked'') (requirements p))
       \<and> tests_linked (summary_of p)
           = length (filter (\<lambda>t. test_status t = ''linked'') (tests p))
       \<and> tests_unlinked (summary_of p)
           = length (filter (\<lambda>t. test_status t = ''unlinked'') (tests p))
       \<and> (\<forall>r\<in>set (requirements p).
             (req_status r = ''linked'') = (req_tests r \<noteq> [])
           \<and> (req_status r = ''unlinked'') = (req_tests r = []))
       \<and> (\<forall>t\<in>set (tests p).
             (test_status t = ''linked'') = (test_reqs t \<noteq> [])
           \<and> (test_status t = ''unlinked'') = (test_reqs t = []))"
proof -
  from build_payload_Inr [OF assms] obtain reqs ts where "resolve now dr reqs ts = Inr p"
    by blast
  then have p: "p = payload_of now dr reqs (map fill_refs ts)"
    by (simp add: resolve_Inr)
  show ?thesis
    unfolding p
    by (simp add: make_summary_def length_filter_partition status_of_linked status_of_unlinked
          o_def)
qed


lemma example_build:
  "build_payload (\<lambda>v. []) ''now'' [Directory [example_R1_file, example_R2_file]]
     [Directory [example_T1_file]] [Directory [example_scan_file]] ''.'' = Inr example_payload"
  by code_simp

theorem summary_counts_partition_witness:
  "build_payload (\<lambda>v. []) ''now'' [Directory [example_R1_file, example_R2_file]]
     [Directory [example_T1_file]] [Directory [example_scan_file]] ''.'' = Inr example_payload
   \<and> requirements_linked (summary_of example_payload)
       + requirements_unlinked (summary_of example_payload) = 2
   \<and> tests_linked (summary_of example_payload)
       + tests_unlinked (summary_of example_payload) = 2
   \<and> length (requirements example_payload) = 2
   \<and> length (tests example_payload) = 2"
  using summary_counts_partition [OF example_build] example_build
  by (simp add: example_payload_def)

section \<open>Test identifiers of the annotation scanner\<close>











lemma strip_all_space: "\<forall>c\<in>set v. is_space c \<Longrightarrow> strip v = []"
proof -
  assume "\<forall>c\<in>set v. is_space c"
  then have d: "dropWhile is_space v = []" by simp
  show ?thesis unfolding strip_def lstrip_def rstrip_def d by simp
qed

text \<open>
  C9: a \<open>HODOR-ID\<close> directive whose value is empty or only white space stores the empty
  string as the id of the block, and the effective test id of such a block is the
  synthesized one (relative path, \<open>#L\<close>, first line), not the empty string.
\<close>

theorem empty_hodor_id_is_synthesized:
  "(\<forall>c\<in>set v. is_space c) \<longrightarrow>
     apply_directive path_label line_no (strip ''HODOR-ID'') (strip v) cur
       = Inr (cur\<lparr>block_id := Some []\<rparr>)
     \<and> effective_id label (cur\<lparr>block_id := Some []\<rparr>)
         = label @ ''#L'' @ str_nat (start_line cur)"
proof
  assume "\<forall>c\<in>set v. is_space c"
  then have v: "strip v = []" by (rule strip_all_space)
  have d: "strip ''HODOR-ID'' = ''HODOR-ID''" by code_simp
  show "apply_directive path_label line_no (strip ''HODOR-ID'') (strip v) cur
       = Inr (cur\<lparr>block_id := Some []\<rparr>)
     \<and> effective_id label (cur\<lparr>block_id := Some []\<rparr>)
         = label @ ''#L'' @ str_nat (start_line cur)"
    by (simp add: v d apply_directive_def effective_id_def synthesized_id_def)
qed

lemma example_empty_id_load:
  "load_test_annotations [Directory [example_empty_id_file]]
     = Inr [\<lparr>item_id = ''src/b.py#L1'', item_text = ''Traceability marker in src/b.py'',
             item_links = [''R1''], item_path = ''src/b.py'', item_refs = Some []\<rparr>]"
  by code_simp

theorem empty_hodor_id_is_synthesized_witness:
  "DIRECTIVE_RE_match ''# HODOR-ID:   '' = Some (''HODOR-ID'', [])
   \<and> DIRECTIVE_RE_match ''# HODOR-ID:'' = Some (''HODOR-ID'', [])
   \<and> list_all is_space ''   ''
   \<and> apply_directive ''/proj/src/b.py'' 1 (strip ''HODOR-ID'') (strip ''   '') (new_block 1)
       = Inr ((new_block 1)\<lparr>block_id := Some []\<rparr>)
   \<and> effective_id ''src/b.py'' ((new_block 1)\<lparr>block_id := Some []\<rparr>) = ''src/b.py#L1''
   \<and> load_test_annotations [Directory [example_empty_id_file]]
       = Inr [\<lparr>item_id = ''src/b.py#L1'', item_text = ''Traceability marker in src/b.py'',
               item_links = [''R1''], item_path = ''src/b.py'', item_refs = Some []\<rparr>]"
proof -
  have m: "DIRECTIVE_RE_match ''# HODOR-ID:   '' = Some (''HODOR-ID'', [])"
    "DIRECTIVE_RE_match ''# HODOR-ID:'' = Some (''HODOR-ID'', [])"
    by code_simp+
  have sp: "\<forall>c\<in>set ''   ''. is_space c" by (simp add: is_space_def)
  have s: "str_nat 1 = ''1''" by code_simp
  from empty_hodor_id_is_synthesized [of "''   ''" "''/proj/src/b.py''" 1 "new_block 1" "''src/b.py''"] sp
  have "apply_directive ''/proj/src/b.py'' 1 (strip ''HODOR-ID'') (strip ''   '') (new_block 1)
       = Inr ((new_block 1)\<lparr>block_id := Some []\<rparr>)"
   and "effective_id ''src/b.py'' ((new_block 1)\<lparr>block_id := Some []\<rparr>)
       = ''src/b.py'' @ ''#L'' @ str_nat (start_line (new_block 1))"
    by blast+
  with m sp s show ?thesis
    by (simp add: example_empty_id_load new_block_def list_all_iff)
qed

section \<open>Properties of the loaders\<close>

lemma entry_not_blank: "is_refs_entry l \<Longrightarrow> strip l \<noteq> []"
  by (auto simp: is_refs_entry_def startswith_def)

lemma extract_loop_in_refs:
  "extract_loop True ls refs =
     refs @ map (\<lambda>l. drop 2 (strip l))
              (takeWhile is_refs_entry (filter (\<lambda>l. \<not> is_refs_header l) ls))"
proof (induction ls arbitrary: refs)
  case Nil
  then show ?case by simp
next
  case (Cons l ls)
  show ?case
    using entry_not_blank [of l]
    by (auto simp: Cons.IH is_refs_header_def is_refs_entry_def)
qed

lemma extract_loop_before_refs:
  "extract_loop False ls refs =
     (case dropWhile (\<lambda>l. \<not> is_refs_header l) ls of
        [] \<Rightarrow> refs
      | h # rest \<Rightarrow> extract_loop True rest refs)"
  by (induction ls arbitrary: refs) (auto simp: is_refs_header_def)

lemma extract_refs_collected:
  "extract_refs t = collected_refs (map rstrip (splitlines t))"
proof -
  have "extract_loop False ls [] = collected_refs ls" for ls
  proof -
    define d where "d = dropWhile (\<lambda>l. \<not> is_refs_header l) ls"
    have "extract_loop False ls [] = (case d of [] \<Rightarrow> [] | h # rest \<Rightarrow> extract_loop True rest [])"
      unfolding d_def by (rule extract_loop_before_refs)
    also have "\<dots> = (case d of [] \<Rightarrow> []
        | h # rest \<Rightarrow> map (\<lambda>l. drop 2 (strip l))
            (takeWhile is_refs_entry (filter (\<lambda>l. \<not> is_refs_header l) rest)))"
      by (cases d) (simp_all add: extract_loop_in_refs)
    finally show ?thesis by (simp add: collected_refs_def d_def)
  qed
  then show ?thesis by (simp add: extract_refs_def)
qed

lemma load_files_step:
  "file_name f \<notin> SKIP_NAMES \<Longrightarrow> is_mapping_file f \<Longrightarrow>
   load_files repr (f # fs) (items, seen) =
     (if file_uid repr f \<in> seen then Inl (duplicate_item_error (file_uid repr f) (file_str f))
      else load_files repr fs (items @ [item_of_file repr f], insert (file_uid repr f) seen))"
  by (auto simp: is_mapping_file_def file_uid_def file_kvs_def item_of_file_def Let_def
        duplicate_item_error_def split: yaml.splits)

lemma load_files_not_mapping:
  "file_name f \<notin> SKIP_NAMES \<Longrightarrow> \<not> is_mapping_file f \<Longrightarrow>
   load_files repr (f # fs) (items, seen) = Inl AttributeError"
  by (auto simp: is_mapping_file_def split: yaml.splits)

lemma load_files_skip:
  "file_name f \<in> SKIP_NAMES \<Longrightarrow> load_files repr (f # fs) st = load_files repr fs st"
  by (cases st) simp

declare load_files.simps(2) [simp del]

lemma load_files_Inr:
  "load_files repr fs (items, seen) = Inr (items', seen') \<Longrightarrow>
     items' = items @ map (item_of_file repr) (filter (\<lambda>f. file_name f \<notin> SKIP_NAMES) fs)
   \<and> seen' = seen \<union> set (map (file_uid repr) (filter (\<lambda>f. file_name f \<notin> SKIP_NAMES) fs))
   \<and> distinct (map (file_uid repr) (filter (\<lambda>f. file_name f \<notin> SKIP_NAMES) fs))
   \<and> set (map (file_uid repr) (filter (\<lambda>f. file_name f \<notin> SKIP_NAMES) fs)) \<inter> seen = {}"
proof (induction fs arbitrary: items seen)
  case Nil
  then show ?case by simp
next
  case (Cons f fs)
  show ?case
  proof (cases "file_name f \<in> SKIP_NAMES")
    case True
    with Cons.prems have "load_files repr fs (items, seen) = Inr (items', seen')"
      by (simp add: load_files_skip)
    from Cons.IH [OF this] True show ?thesis by simp
  next
    case False
    show ?thesis
    proof (cases "is_mapping_file f")
      case m: False
      with False Cons.prems show ?thesis by (simp add: load_files_not_mapping)
    next
      case m: True
      from Cons.prems have notin: "file_uid repr f \<notin> seen"
        unfolding load_files_step [OF False m] by (auto split: if_splits)
      with Cons.prems have
        "load_files repr fs (items @ [item_of_file repr f], insert (file_uid repr f) seen)
           = Inr (items', seen')"
        unfolding load_files_step [OF False m] by simp
      from Cons.IH [OF this] notin False show ?thesis by auto
    qed
  qed
qed



lemma load_dirs_Inr:
  "load_dirs repr label dirs (items, seen) = Inr (items', seen') \<Longrightarrow>
     items' = items @ map (item_of_file repr) (item_files dirs)
   \<and> seen' = seen \<union> set (claimed_ids repr dirs)
   \<and> distinct (claimed_ids repr dirs)
   \<and> set (claimed_ids repr dirs) \<inter> seen = {}"
proof (induction dirs arbitrary: items seen)
  case Nil
  then show ?case by (simp add: item_files_def claimed_ids_def)
next
  case (Cons d dirs)
  show ?case
  proof (cases d)
    case (Missing p)
    with Cons.prems show ?thesis by simp
  next
    case (Directory fs)
    with Cons.prems obtain items1 seen1 where
      1: "load_files repr fs (items, seen) = Inr (items1, seen1)" and
      2: "load_dirs repr label dirs (items1, seen1) = Inr (items', seen')"
      by (auto split: sum.splits)
    have it: "item_files (d # dirs)
        = filter (\<lambda>f. file_name f \<notin> SKIP_NAMES) fs @ item_files dirs"
      by (simp add: item_files_def dir_files_def Directory)
    have cl: "claimed_ids repr (d # dirs)
        = map (file_uid repr) (filter (\<lambda>f. file_name f \<notin> SKIP_NAMES) fs)
          @ claimed_ids repr dirs"
      by (simp add: claimed_ids_def it)
    from load_files_Inr [OF 1] Cons.IH [OF 2] show ?thesis
      unfolding it cl by auto
  qed
qed

lemma load_items_Inr:
  assumes "load_items repr dirs label = Inr items"
  shows "items = map (item_of_file repr) (item_files dirs)
       \<and> map item_id items = claimed_ids repr dirs
       \<and> distinct (claimed_ids repr dirs)"
proof -
  from assms obtain seen where "load_dirs repr label dirs ([], {}) = Inr (items, seen)"
    by (auto simp: load_items_def split: sum.splits)
  from load_dirs_Inr [OF this] show ?thesis
    by (simp add: claimed_ids_def item_of_file_def o_def)
qed

lemma load_items_refs_None:
  "load_items repr dirs label = Inr items \<Longrightarrow> t \<in> set items \<Longrightarrow> item_refs t = None"
  by (auto dest!: load_items_Inr simp: item_of_file_def)



lemma block_item_simps [simp]:
  "item_id (block_item label b) = effective_id label b"
  "item_links (block_item label b) = block_reqs b"
  by (simp_all add: block_item_def)





lemma build_payload_cases:
  assumes "build_payload repr now rd td sd dr = Inr p"
  shows "\<exists>reqs item_tests scan_tests.
           load_items repr rd ''Requirement'' = Inr reqs
         \<and> (if td \<noteq> [] then load_items repr td ''Test'' else Inr []) = Inr item_tests
         \<and> (if sd \<noteq> [] then load_test_annotations sd else Inr []) = Inr scan_tests
         \<and> resolve now dr reqs (item_tests @ scan_tests) = Inr p"
proof (cases "load_items repr rd ''Requirement''")
  case (Inl e)
  with assms show ?thesis by (simp add: build_payload_def)
next
  case reqs: (Inr reqs)
  show ?thesis
  proof (cases "if td \<noteq> [] then load_items repr td ''Test'' else Inr []")
    case (Inl e)
    with assms reqs show ?thesis by (simp add: build_payload_def)
  next
    case its: (Inr item_tests)
    show ?thesis
    proof (cases "if sd \<noteq> [] then load_test_annotations sd else Inr []")
      case (Inl e)
      with assms reqs its show ?thesis by (simp add: build_payload_def)
    next
      case (Inr scan_tests)
      with assms reqs its show ?thesis by (simp add: build_payload_def)
    qed
  qed
qed












lemma example_reqs_load:
  "load_items (\<lambda>v. []) [Directory [example_R1_file, example_R2_file]] ''Requirement''
     = Inr (map req_item (requirements example_payload))"
  by code_simp

lemma example_T9_load:
  "load_items (\<lambda>v. []) [Directory [example_T9_file]] ''Test''
     = Inr [\<lparr>item_id = ''T9'', item_text = ''ninth test'', item_links = [''R2''],
             item_path = ''reqs/tst/T9.yml'', item_refs = None\<rparr>]"
  by code_simp


text \<open>
  C10 as stated fails: a second line \<open>References:\<close> after the first entry does not start
  with \<open>- \<close>, yet the collection goes on after it.
\<close>

theorem extract_refs_counterexample:
  "extract_refs example_refs_text = [''spec 4.2'', ''issue 12'']
   \<and> refs_as_claimed (map rstrip (splitlines example_refs_text)) = [''spec 4.2'']
   \<and> extract_refs example_refs_text
       \<noteq> refs_as_claimed (map rstrip (splitlines example_refs_text))"
proof -
  have "extract_refs example_refs_text = [''spec 4.2'', ''issue 12'']"
    and "refs_as_claimed (map rstrip (splitlines example_refs_text)) = [''spec 4.2'']"
    by code_simp+
  then show ?thesis by simp
qed

text \<open>
  C10, amended: \<open>extract_refs\<close> returns the entries (lines that start with \<open>- \<close> once
  stripped, without these two characters) that follow the first line whose stripped
  content is \<open>References:\<close>, passing over every further such line, up to the first other
  line that is blank or no entry, and nothing when there is no such line; in the payload
  the declarative test records come first and carry this list of their text as \<open>refs\<close>.
\<close>

theorem item_test_references:
  "extract_refs txt = collected_refs (map rstrip (splitlines txt))
   \<and> (build_payload repr now rd td sd dr = Inr p
        \<and> (if td \<noteq> [] then load_items repr td ''Test'' else Inr []) = Inr item_tests \<longrightarrow>
      take (length item_tests) (map test_item (tests p))
        = map (\<lambda>t. t\<lparr>item_refs :=
                    Some (collected_refs (map rstrip (splitlines (item_text t))))\<rparr>) item_tests)"
proof (intro conjI impI)
  show "extract_refs txt = collected_refs (map rstrip (splitlines txt))"
    by (rule extract_refs_collected)
next
  assume a: "build_payload repr now rd td sd dr = Inr p
        \<and> (if td \<noteq> [] then load_items repr td ''Test'' else Inr []) = Inr item_tests"
  with build_payload_cases [of repr now rd td sd dr p] obtain reqs scan_tests where
    r: "resolve now dr reqs (item_tests @ scan_tests) = Inr p"
    by auto
  from resolve_Inr [OF r] have "map test_item (tests p) = map fill_refs (item_tests @ scan_tests)"
    by (simp add: o_def)
  then have t: "take (length item_tests) (map test_item (tests p)) = map fill_refs item_tests"
    by simp
  have "fill_refs t = t\<lparr>item_refs :=
                    Some (collected_refs (map rstrip (splitlines (item_text t))))\<rparr>"
    if "t \<in> set item_tests" for t
  proof -
    from a that have "item_refs t = None"
      by (auto dest: load_items_refs_None split: if_splits)
    then show ?thesis by (simp add: fill_refs_def extract_refs_collected)
  qed
  with t show "take (length item_tests) (map test_item (tests p))
        = map (\<lambda>t. t\<lparr>item_refs :=
                    Some (collected_refs (map rstrip (splitlines (item_text t))))\<rparr>) item_tests"
    by simp
qed

lemma example_refs_load:
  "(if [Directory [example_refs_file]] \<noteq> []
    then load_items (\<lambda>v. []) [Directory [example_refs_file]] ''Test'' else Inr [])
     = Inr [\<lparr>item_id = ''T3'', item_text = example_refs_text, item_links = [''R1''],
             item_path = ''reqs/tst/T3.yml'', item_refs = None\<rparr>]"
  by code_simp

lemma example_refs_build:
  "build_payload (\<lambda>v. []) ''now'' [] [Directory [example_refs_file]] [] ''.''
     = Inr \<lparr>generated_at = ''now'', source_root = ''.'',
            summary_of =
              \<lparr>requirements_total = 0, tests_total = 1, links_total = 0,
               requirements_linked = 0, requirements_unlinked = 0,
               tests_linked = 0, tests_unlinked = 1\<rparr>,
            requirements = [],
            tests =
              [\<lparr>test_item =
                  \<lparr>item_id = ''T3'', item_text = example_refs_text, item_links = [''R1''],
                   item_path = ''reqs/tst/T3.yml'',
                   item_refs = Some [''spec 4.2'', ''issue 12'']\<rparr>,
                test_reqs = [], test_status = ''unlinked''\<rparr>],
            links = []\<rparr>"
  by code_simp

theorem item_test_references_witness:
  "load_items (\<lambda>v. []) [Directory [example_refs_file]] ''Test''
     = Inr [\<lparr>item_id = ''T3'', item_text = example_refs_text, item_links = [''R1''],
             item_path = ''reqs/tst/T3.yml'', item_refs = None\<rparr>]
   \<and> (\<exists>p. build_payload (\<lambda>v. []) ''now'' [] [Directory [example_refs_file]] [] ''.'' = Inr p
          \<and> map (\<lambda>t. item_refs (test_item t)) (tests p) = [Some [''spec 4.2'', ''issue 12'']])
   \<and> collected_refs (map rstrip (splitlines example_refs_text)) = [''spec 4.2'', ''issue 12'']"
proof -
  have c: "extract_refs example_refs_text = [''spec 4.2'', ''issue 12'']" by code_simp
  from item_test_references [of example_refs_text]
  have "collected_refs (map rstrip (splitlines example_refs_text)) = [''spec 4.2'', ''issue 12'']"
    by (simp add: c)
  with example_refs_load example_refs_build show ?thesis by simp
qed

end
